theory Spec2Isabelle
  imports Main
begin

section \<open>Strings\<close>

text \<open>
  A JavaScript string is a sequence of UTF-16 code units; it is modelled as the list of
  these units, so that \<open>length\<close> is \<^verbatim>\<open>.length\<close>, \<open>take n\<close> is
  \<^verbatim>\<open>.slice(0, n)\<close> and \<open>=\<close> is \<^verbatim>\<open>===\<close>. ASCII literals are written
  with \<open>js\<close>.
\<close>

type_synonym jsstring = "nat list"

definition js :: "string \<Rightarrow> jsstring" where
  "js s = map of_char s"

text \<open>
  The code units that \<^verbatim>\<open>String.prototype.trim\<close> strips: ECMAScript white space and
  line terminators.
\<close>

definition isWhiteSpace :: "nat \<Rightarrow> bool" where
  "isWhiteSpace c \<longleftrightarrow>
     c \<in> {0x9, 0xA, 0xB, 0xC, 0xD, 0x20, 0xA0, 0x1680, 0x2028, 0x2029, 0x202F, 0x205F,
          0x3000, 0xFEFF} \<or> (0x2000 \<le> c \<and> c \<le> 0x200A)"

definition trim :: "jsstring \<Rightarrow> jsstring" where
  "trim s = rev (dropWhile isWhiteSpace (rev (dropWhile isWhiteSpace s)))"

section \<open>The store: \<^verbatim>\<open>nexusStore.ts\<close>\<close>

datatype Agent = NEXUS | ATLAS | ORACLE | COMPASS | FORGE

datatype View = ChatV | ProjectsV | ResearchV | CareerV | CodeV | SettingsV | TelegramV

datatype Role = RUser | RAssistant

datatype NotifType = NInfo | NSuccess | NWarning | NError | NAgent

text \<open>
  Fields of the entity records carry a prefix (\<open>m_\<close>, \<open>n_\<close>, \<open>p_\<close>, \<open>t_\<close>),
  since several interfaces of the source share the field names \<^verbatim>\<open>id\<close>,
  \<^verbatim>\<open>agent\<close> and \<^verbatim>\<open>timestamp\<close>. A \<^verbatim>\<open>Date\<close> is the number of
  milliseconds it holds; an optional field is an \<open>option\<close>.
\<close>

record Message =
  m_id :: jsstring
  m_role :: Role
  m_content :: jsstring
  m_agent :: Agent
  m_timestamp :: nat
  m_isStreaming :: "bool option"

text \<open>
  The \<^verbatim>\<open>action\<close> of a notification is a label with a callback; the callback is opaque
  to the store, only the label is kept.
\<close>

record Notification =
  n_id :: jsstring
  n_type :: NotifType
  n_title :: jsstring
  n_body :: jsstring
  n_agent :: "Agent option"
  n_timestamp :: nat
  n_read :: bool
  n_action :: "jsstring option"

text \<open>
  Projects and tasks are the objects the backend returns. The views identify a project by
  its \<^verbatim>\<open>_id\<close> and a task by \<^verbatim>\<open>id\<close> or \<^verbatim>\<open>_id\<close>, either of which
  may be missing on a task.
\<close>

record Project =
  p__id :: jsstring
  p_name :: jsstring
  p_description :: jsstring
  p_status :: jsstring
  p_github_repo :: jsstring

record Task =
  t_id :: "jsstring option"
  t__id :: "jsstring option"
  t_project_id :: jsstring
  t_title :: jsstring
  t_status :: jsstring
  t_priority :: jsstring
  t_description :: "jsstring option"

record AgentStatus =
  as_name :: Agent
  as_online :: bool

record Settings =
  telegramToken :: jsstring
  telegramChatId :: jsstring
  githubToken :: jsstring
  notionKey :: jsstring
  ollamaModel :: jsstring
  morningTime :: jsstring
  eveningTime :: jsstring
  notifSound :: bool
  notifDesktop :: bool

record NexusState =
  messages :: "Message list"
  sessionId :: "jsstring option"
  currentView :: View
  isLoading :: bool
  backendUrl :: jsstring
  notifications :: "Notification list"
  unreadCount :: nat
  showNotifPanel :: bool
  projects :: "Project list"
  tasks :: "Task list"
  activeProjectId :: "jsstring option"
  agentStatuses :: "AgentStatus list"
  ollamaOnline :: bool
  telegramConnected :: bool
  commandBarOpen :: bool
  settings :: Settings

definition initialState :: NexusState where
  "initialState =
     \<lparr> messages = [], sessionId = None, currentView = ChatV, isLoading = False,
       backendUrl = js ''http://localhost:8000'',
       notifications = [], unreadCount = 0, showNotifPanel = False,
       projects = [], tasks = [], activeProjectId = None,
       agentStatuses =
         [\<lparr>as_name = ATLAS, as_online = True\<rparr>, \<lparr>as_name = ORACLE, as_online = True\<rparr>,
          \<lparr>as_name = COMPASS, as_online = True\<rparr>, \<lparr>as_name = FORGE, as_online = True\<rparr>],
       ollamaOnline = False, telegramConnected = False, commandBarOpen = False,
       settings =
         \<lparr> telegramToken = [], telegramChatId = [], githubToken = [], notionKey = [],
           ollamaModel = js ''llama3.1:8b'', morningTime = js ''09:00'',
           eveningTime = js ''18:30'', notifSound = True, notifDesktop = True \<rparr> \<rparr>"

text \<open>
  \<^verbatim>\<open>crypto.randomUUID()\<close> and \<^verbatim>\<open>new Date()\<close> are inputs from the environment:
  an action that calls them takes the pair of their results as its \<open>stamp\<close>.
\<close>

type_synonym stamp = "jsstring \<times> nat"

subsection \<open>Messages\<close>

text \<open>The argument of \<^verbatim>\<open>addMessage\<close>: a message without id and timestamp.\<close>

record MessageInput =
  mi_role :: Role
  mi_content :: jsstring
  mi_agent :: Agent
  mi_isStreaming :: "bool option"

definition addMessage :: "MessageInput \<Rightarrow> stamp \<Rightarrow> NexusState \<Rightarrow> NexusState" where
  "addMessage m st s =
     s\<lparr>messages := messages s @
          [\<lparr> m_id = fst st, m_role = mi_role m, m_content = mi_content m,
             m_agent = mi_agent m, m_timestamp = snd st,
             m_isStreaming = mi_isStreaming m \<rparr>]\<rparr>"

text \<open>
  \<^verbatim>\<open>msgs[msgs.length - 1] = {...}\<close> is guarded by \<^verbatim>\<open>msgs.length > 0\<close>; the
  update of the last index is \<open>msgs[length msgs - 1 := _]\<close>.
\<close>

definition updateLastMessage :: "jsstring \<Rightarrow> NexusState \<Rightarrow> NexusState" where
  "updateLastMessage content s =
     (let msgs = messages s;
          msgs' = (if length msgs > 0
                   then msgs[length msgs - 1 :=
                          (msgs ! (length msgs - 1))\<lparr>m_content := content,
                                                      m_isStreaming := Some False\<rparr>]
                   else msgs)
      in s\<lparr>messages := msgs'\<rparr>)"

definition setLoading :: "bool \<Rightarrow> NexusState \<Rightarrow> NexusState" where
  "setLoading v s = s\<lparr>isLoading := v\<rparr>"

definition setView :: "View \<Rightarrow> NexusState \<Rightarrow> NexusState" where
  "setView v s = s\<lparr>currentView := v\<rparr>"

definition setSessionId :: "jsstring \<Rightarrow> NexusState \<Rightarrow> NexusState" where
  "setSessionId i s = s\<lparr>sessionId := Some i\<rparr>"

definition clearChat :: "NexusState \<Rightarrow> NexusState" where
  "clearChat s = s\<lparr>messages := [], sessionId := None\<rparr>"

subsection \<open>Notifications\<close>

text \<open>The argument of \<^verbatim>\<open>pushNotification\<close>: no id, timestamp or read flag.\<close>

record NotifInput =
  ni_type :: NotifType
  ni_title :: jsstring
  ni_body :: jsstring
  ni_agent :: "Agent option"
  ni_action :: "jsstring option"

definition mkNotification :: "NotifInput \<Rightarrow> stamp \<Rightarrow> Notification" where
  "mkNotification n st =
     \<lparr> n_id = fst st, n_type = ni_type n, n_title = ni_title n, n_body = ni_body n,
       n_agent = ni_agent n, n_timestamp = snd st, n_read = False,
       n_action = ni_action n \<rparr>"

definition pushNotification :: "NotifInput \<Rightarrow> stamp \<Rightarrow> NexusState \<Rightarrow> NexusState" where
  "pushNotification n st s =
     s\<lparr>notifications := take 50 (mkNotification n st # notifications s),
       unreadCount := unreadCount s + 1\<rparr>"

text \<open>
  After the store update \<^verbatim>\<open>pushNotification\<close> shows a desktop notification when the
  preference is set, the browser has the \<^verbatim>\<open>Notification\<close> API and the permission is
  granted. The store is not touched by it. The title is prefixed with the name of the
  application and a dash (U+2014).
\<close>

definition desktopNotification ::
  "NotifInput \<Rightarrow> bool \<Rightarrow> bool \<Rightarrow> NexusState \<Rightarrow> (jsstring \<times> jsstring) option" where
  "desktopNotification n apiPresent granted s =
     (if notifDesktop (settings s) \<and> apiPresent \<and> granted
      then Some (js ''NEXUS '' @ [0x2014] @ js '' '' @ ni_title n, ni_body n)
      else None)"

definition markAllRead :: "NexusState \<Rightarrow> NexusState" where
  "markAllRead s =
     s\<lparr>notifications := map (\<lambda>n. n\<lparr>n_read := True\<rparr>) (notifications s),
       unreadCount := 0\<rparr>"

definition dismissNotification :: "jsstring \<Rightarrow> NexusState \<Rightarrow> NexusState" where
  "dismissNotification i s =
     s\<lparr>notifications := filter (\<lambda>n. n_id n \<noteq> i) (notifications s),
       unreadCount := length (filter (\<lambda>n. \<not> n_read n \<and> n_id n \<noteq> i) (notifications s))\<rparr>"

definition toggleNotifPanel :: "NexusState \<Rightarrow> NexusState" where
  "toggleNotifPanel s = s\<lparr>showNotifPanel := \<not> showNotifPanel s\<rparr>"

subsection \<open>Projects and tasks\<close>

definition setProjects :: "Project list \<Rightarrow> NexusState \<Rightarrow> NexusState" where
  "setProjects p s = s\<lparr>projects := p\<rparr>"

definition setTasks :: "Task list \<Rightarrow> NexusState \<Rightarrow> NexusState" where
  "setTasks t s = s\<lparr>tasks := t\<rparr>"

definition setActiveProject :: "jsstring option \<Rightarrow> NexusState \<Rightarrow> NexusState" where
  "setActiveProject i s = s\<lparr>activeProjectId := i\<rparr>"

section \<open>Calls to the backend\<close>

text \<open>
  The helpers of \<^verbatim>\<open>lib/api\<close> and \<^verbatim>\<open>fetch\<close> are collaborators: a call
  either returns its payload or throws. The outcome of a call is an input of the model,
  \<open>Inl\<close> for the exception.
\<close>

datatype error = NetworkError | ApiError jsstring

type_synonym 'a outcome = "error + 'a"

section \<open>The chat input: \<^verbatim>\<open>ChatInput.submit\<close> of the chat view\<close>

record ChatResponse =
  cr_response :: jsstring
  cr_agent :: Agent
  cr_session_id :: jsstring

fun agentName :: "Agent \<Rightarrow> jsstring" where
  "agentName NEXUS = js ''NEXUS''"
| "agentName ATLAS = js ''ATLAS''"
| "agentName ORACLE = js ''ORACLE''"
| "agentName COMPASS = js ''COMPASS''"
| "agentName FORGE = js ''FORGE''"

text \<open>
  The text written into the placeholder when the call fails. It begins with a warning
  sign (U+26A0, U+FE0F).
\<close>

definition OFFLINE_NOTICE :: jsstring where
  "OFFLINE_NOTICE =
     [0x26A0, 0xFE0F] @ js '' Backend offline. Run: `uvicorn api.main:app --reload` in /backend''"

text \<open>\<^verbatim>\<open>a || b\<close> on an optional string: \<open>a\<close> unless it is undefined or empty.\<close>

definition orElse :: "jsstring option \<Rightarrow> jsstring \<Rightarrow> jsstring" where
  "orElse a b = (case a of None \<Rightarrow> b | Some x \<Rightarrow> if x = [] then b else x)"

text \<open>\<^verbatim>\<open>!x\<close> on an optional string: null, undefined and the empty string are falsy.\<close>

definition falsy :: "jsstring option \<Rightarrow> bool" where
  "falsy x \<longleftrightarrow> (case x of None \<Rightarrow> True | Some v \<Rightarrow> v = [])"

text \<open>
  \<^verbatim>\<open>submit\<close> is an \<^verbatim>\<open>async\<close> function. \<open>submit_start\<close> is what runs up to
  the \<^verbatim>\<open>await sendChat(...)\<close>: it returns the new text of the input box, the new store
  and, when the request is sent, what the continuation has captured (the message and the
  \<^verbatim>\<open>sessionId\<close> of the render). \<open>None\<close> is the early \<^verbatim>\<open>return\<close>.
\<close>

record SubmitPending =
  sp_msg :: jsstring
  sp_sessionId :: "jsstring option"

definition submit_start ::
  "jsstring option \<Rightarrow> jsstring \<Rightarrow> stamp \<Rightarrow> stamp \<Rightarrow> NexusState
     \<Rightarrow> (jsstring \<times> NexusState) \<times> SubmitPending option" where
  "submit_start overrideMsg val st1 st2 s =
     (let msg = trim (orElse overrideMsg val) in
      if msg = [] \<or> isLoading s then ((val, s), None)
      else
        let s1 = addMessage \<lparr>mi_role = RUser, mi_content = msg, mi_agent = NEXUS,
                             mi_isStreaming = None\<rparr> st1 s;
            s2 = addMessage \<lparr>mi_role = RAssistant, mi_content = [], mi_agent = NEXUS,
                             mi_isStreaming = Some True\<rparr> st2 s1;
            s3 = setLoading True s2
        in (([], s3), Some \<lparr>sp_msg = msg, sp_sessionId = sessionId s\<rparr>))"

text \<open>
  The \<^verbatim>\<open>try\<close> block after the \<^verbatim>\<open>await\<close>: it throws exactly when
  \<^verbatim>\<open>sendChat\<close> throws, before any store action.
\<close>

definition submit_try ::
  "ChatResponse outcome \<Rightarrow> SubmitPending \<Rightarrow> stamp \<Rightarrow> NexusState \<Rightarrow> error + NexusState" where
  "submit_try res p st s =
     (case res of
        Inl e \<Rightarrow> Inl e
      | Inr data \<Rightarrow>
          let s1 = (if falsy (sp_sessionId p) then setSessionId (cr_session_id data) s else s);
              s2 = updateLastMessage (cr_response data) s1
          in Inr (if cr_agent data \<noteq> NEXUS
                  then pushNotification
                         \<lparr>ni_type = NAgent,
                          ni_title = agentName (cr_agent data) @ js '' responded'',
                          ni_body = take 80 (cr_response data) @
                                    (if length (cr_response data) > 80 then [0x2026] else []),
                          ni_agent = Some (cr_agent data), ni_action = None\<rparr> st s2
                  else s2))"

text \<open>
  The \<^verbatim>\<open>catch\<close> and \<^verbatim>\<open>finally\<close> blocks. The result is \<open>Inl\<close> when the
  promise of \<^verbatim>\<open>submit\<close> is rejected, \<open>Inr\<close> when it is fulfilled.
\<close>

definition submit_resume ::
  "ChatResponse outcome \<Rightarrow> SubmitPending \<Rightarrow> stamp \<Rightarrow> NexusState \<Rightarrow> error + NexusState" where
  "submit_resume res p st s =
     (let s1 = (case submit_try res p st s of
                  Inl e \<Rightarrow> updateLastMessage OFFLINE_NOTICE s
                | Inr s' \<Rightarrow> s')
      in Inr (setLoading False s1))"

text \<open>
  One run of \<^verbatim>\<open>submit\<close> with no other store action between the request and its
  outcome. \<open>st1\<close> and \<open>st2\<close> stamp the two messages, \<open>st3\<close> the notification.
\<close>

definition submit ::
  "jsstring option \<Rightarrow> jsstring \<Rightarrow> stamp \<Rightarrow> stamp \<Rightarrow> stamp \<Rightarrow> ChatResponse outcome
     \<Rightarrow> NexusState \<Rightarrow> error + (jsstring \<times> NexusState)" where
  "submit overrideMsg val st1 st2 st3 res s =
     (case submit_start overrideMsg val st1 st2 s of
        ((v, s1), None) \<Rightarrow> Inr (v, s1)
      | ((v, s1), Some p) \<Rightarrow>
          (case submit_resume res p st3 s1 of
             Inl e \<Rightarrow> Inl e
           | Inr s2 \<Rightarrow> Inr (v, s2)))"

section \<open>The task board: \<^verbatim>\<open>ProjectsView.tsx\<close>\<close>

text \<open>
  The \<^verbatim>\<open>useState\<close> cells of the view that the handlers below read or write.
  A handler reads the store and these cells as the render that created it saw them; in
  the model it reads the state it is applied to.
\<close>

record ProjectsViewLocal =
  loading :: bool
  showDeleteProject :: bool
  deleteConfirmationName :: jsstring
  dragging :: "jsstring option"

definition loadProjects ::
  "Project list outcome \<Rightarrow> stamp \<Rightarrow> ProjectsViewLocal \<times> NexusState
     \<Rightarrow> ProjectsViewLocal \<times> NexusState" where
  "loadProjects res st ls =
     (let l = fst ls; s = snd ls;
          s' = (case res of
                  Inr data \<Rightarrow>
                    (let s1 = setProjects data s in
                     case data of
                       [] \<Rightarrow> s1
                     | p # _ \<Rightarrow>
                         if falsy (activeProjectId s) then setActiveProject (Some (p__id p)) s1
                         else s1)
                | Inl e \<Rightarrow>
                    pushNotification
                      \<lparr>ni_type = NError, ni_title = js ''Projects Error'',
                       ni_body = js ''Could not load projects'',
                       ni_agent = None, ni_action = None\<rparr> st s)
      in (l\<lparr>loading := False\<rparr>, s'))"

text \<open>
  \<^verbatim>\<open>handleStatusChange\<close>: up to \<^verbatim>\<open>await updateTaskStatus(taskId, newStatus)\<close>
  the handler only sends the request; the continuation holds the \<^verbatim>\<open>tasks\<close> of the
  render.
\<close>

record StatusChangePending =
  sc_taskId :: jsstring
  sc_newStatus :: jsstring
  sc_tasks :: "Task list"

definition handleStatusChange_start ::
  "jsstring \<Rightarrow> jsstring \<Rightarrow> NexusState \<Rightarrow> NexusState \<times> StatusChangePending" where
  "handleStatusChange_start taskId newStatus s =
     (s, \<lparr>sc_taskId = taskId, sc_newStatus = newStatus, sc_tasks = tasks s\<rparr>)"

definition handleStatusChange_resume ::
  "unit outcome \<Rightarrow> StatusChangePending \<Rightarrow> NexusState \<Rightarrow> NexusState" where
  "handleStatusChange_resume res p s =
     (case res of
        Inr _ \<Rightarrow>
          setTasks (map (\<lambda>t. if t_id t = Some (sc_taskId p)
                             then t\<lparr>t_status := sc_newStatus p\<rparr> else t) (sc_tasks p)) s
      | Inl e \<Rightarrow> s)"

definition handleStatusChange ::
  "unit outcome \<Rightarrow> jsstring \<Rightarrow> jsstring \<Rightarrow> NexusState \<Rightarrow> NexusState" where
  "handleStatusChange res taskId newStatus s =
     (case handleStatusChange_start taskId newStatus s of
        (s1, p) \<Rightarrow> handleStatusChange_resume res p s1)"

text \<open>The \<^verbatim>\<open>onDrop\<close> handler of a status column with key \<open>colKey\<close>.\<close>

definition onDrop ::
  "unit outcome \<Rightarrow> jsstring \<Rightarrow> ProjectsViewLocal \<times> NexusState
     \<Rightarrow> ProjectsViewLocal \<times> NexusState" where
  "onDrop res colKey ls =
     (case dragging (fst ls) of
        None \<Rightarrow> ls
      | Some d \<Rightarrow> ((fst ls)\<lparr>dragging := None\<rparr>, handleStatusChange res d colKey (snd ls)))"

text \<open>
  \<^verbatim>\<open>projects.find((p) => p._id === activeProjectId)\<close>: no project matches a null id.
\<close>

definition activeProject :: "NexusState \<Rightarrow> Project option" where
  "activeProject s = find (\<lambda>p. Some (p__id p) = activeProjectId s) (projects s)"

text \<open>
  \<^verbatim>\<open>handleDeleteProject\<close> returns, besides the new state, the requests it has sent, in
  order. Its inputs are the outcome of the debug request (the HTTP status) and of
  \<^verbatim>\<open>deleteProject(activeProjectId)\<close>. The handler reads \<^verbatim>\<open>projects\<close>,
  \<^verbatim>\<open>activeProjectId\<close> and \<^verbatim>\<open>deleteConfirmationName\<close> as the render that
  created it saw them. Past the first guard \<^verbatim>\<open>activeProjectId\<close> is a non-empty
  string, so the \<open>None\<close> case of \<open>calls\<close> is never taken.
\<close>

datatype RemoteCall = DebugCheck | DeleteProject jsstring

definition handleDeleteProject ::
  "nat outcome \<Rightarrow> unit outcome \<Rightarrow> stamp \<Rightarrow> ProjectsViewLocal \<times> NexusState
     \<Rightarrow> RemoteCall list \<times> ProjectsViewLocal \<times> NexusState" where
  "handleDeleteProject dbg del st ls =
     (let l = fst ls; s = snd ls in
      if falsy (activeProjectId s) then ([], l, s)
      else
        case activeProject s of
          None \<Rightarrow> ([], l, s)
        | Some projectToDelete \<Rightarrow>
            if deleteConfirmationName l \<noteq> p_name projectToDelete
            then ([], l,
                  pushNotification
                    \<lparr>ni_type = NError, ni_title = js ''Validation Error'',
                     ni_body = js ''Project name mismatch'',
                     ni_agent = None, ni_action = None\<rparr> st s)
            else if dbg = Inr 404
            then ([DebugCheck], l,
                  pushNotification
                    \<lparr>ni_type = NError, ni_title = js ''BACKEND RESTART REQUIRED'',
                     ni_body = js ''The server is running old code. Please restart 'uvicorn' in your terminal.'',
                     ni_agent = None, ni_action = None\<rparr> st s)
            else
              let calls = (case activeProjectId s of
                             None \<Rightarrow> [DebugCheck]
                           | Some pid \<Rightarrow> [DebugCheck, DeleteProject pid])
              in (case del of
                   Inr _ \<Rightarrow>
                     (let remaining = filter (\<lambda>p. Some (p__id p) \<noteq> activeProjectId s) (projects s);
                          s1 = setProjects remaining s;
                          s2 = (case remaining of
                                  [] \<Rightarrow> setActiveProject None s1
                                | r # _ \<Rightarrow> setActiveProject (Some (p__id r)) s1)
                      in (calls, l\<lparr>showDeleteProject := False, deleteConfirmationName := []\<rparr>,
                          pushNotification
                            \<lparr>ni_type = NSuccess, ni_title = js ''Project Deleted'',
                             ni_body = p_name projectToDelete,
                             ni_agent = None, ni_action = None\<rparr> st s2))
                 | Inl e \<Rightarrow>
                     (calls, l,
                      pushNotification
                        \<lparr>ni_type = NError, ni_title = js ''Error'',
                         ni_body = js ''Could not delete project'',
                         ni_agent = None, ni_action = None\<rparr> st s)))"

text \<open>
  The DELETE PROJECT button of the confirmation dialog. The dialog is rendered when
  \<^verbatim>\<open>showDeleteProject && activeProject\<close>; the result is \<open>None\<close> when it is not, and
  otherwise the \<^verbatim>\<open>disabled\<close> attribute of the button.
\<close>

definition deleteButtonDisabled :: "ProjectsViewLocal \<Rightarrow> NexusState \<Rightarrow> bool option" where
  "deleteButtonDisabled l s =
     (if showDeleteProject l
      then (case activeProject s of
              None \<Rightarrow> None
            | Some ap \<Rightarrow> Some (deleteConfirmationName l \<noteq> p_name ap))
      else None)"

text \<open>A click reaches \<^verbatim>\<open>handleDeleteProject\<close> only through an enabled button.\<close>

definition clickDelete ::
  "nat outcome \<Rightarrow> unit outcome \<Rightarrow> stamp \<Rightarrow> ProjectsViewLocal \<times> NexusState
     \<Rightarrow> RemoteCall list \<times> ProjectsViewLocal \<times> NexusState" where
  "clickDelete dbg del st ls =
     (if deleteButtonDisabled (fst ls) (snd ls) = Some False
      then handleDeleteProject dbg del st ls
      else ([], fst ls, snd ls))"

section \<open>Bot polling: \<^verbatim>\<open>startPolling\<close> of \<^verbatim>\<open>TelegramView.tsx\<close>\<close>

text \<open>
  The cursor and the update ids are JavaScript numbers, that is doubles. The ids are
  integers; an integer stands for the double of that value. \<open>roundDouble x\<close> is the
  double nearest to the integer \<open>x\<close>, ties to the even mantissa: up to \<open>2 ^ 53\<close> in
  magnitude every integer is a double, beyond that the doubles are the multiples of
  \<open>2 ^ (bitlen \<bar>x\<bar> - 53)\<close>. The sum \<^verbatim>\<open>a + b\<close> and the product \<^verbatim>\<open>a * b\<close> of two
  such doubles are \<open>roundDouble (a + b)\<close> and \<open>roundDouble (a * b)\<close>.
\<close>

fun bitlen :: "nat \<Rightarrow> nat" where
  "bitlen n = (if n = 0 then 0 else Suc (bitlen (n div 2)))"

definition roundDouble :: "int \<Rightarrow> int" where
  "roundDouble x =
     (if \<bar>x\<bar> \<le> 2 ^ 53 then x
      else
        let q = 2 ^ (bitlen (nat \<bar>x\<bar>) - 53);
            lo = (x div q) * q;
            r = x - lo
        in if 2 * r < q then lo
           else if q < 2 * r then lo + q
           else if even (x div q) then lo else lo + q)"

text \<open>\<^verbatim>\<open>Number.isSafeInteger\<close>: the integers of magnitude below \<open>2 ^ 53\<close>.\<close>

definition isSafeInteger :: "int \<Rightarrow> bool" where
  "isSafeInteger n \<longleftrightarrow> \<bar>n\<bar> < 2 ^ 53"

text \<open>
  An update of the bot API as \<^verbatim>\<open>startPolling\<close> reads it: \<^verbatim>\<open>update_id\<close> and,
  each optional, \<^verbatim>\<open>message.from.first_name\<close>, \<^verbatim>\<open>message.text\<close> and
  \<^verbatim>\<open>message.date\<close>.
\<close>

record TgMessage =
  tm_first_name :: "jsstring option"
  tm_text :: "jsstring option"
  tm_date :: "int option"

record Update =
  update_id :: int
  u_message :: "TgMessage option"

text \<open>
  The \<^verbatim>\<open>timestamp\<close> of a message of the view is \<^verbatim>\<open>new Date(ms)\<close>: the time value
  \<open>ms\<close>, or \<open>None\<close> for the invalid date that a magnitude above 8.64e15 gives.
\<close>

record TelegramMessage =
  tg_id :: int
  tg_from :: jsstring
  tg_text :: jsstring
  tg_timestamp :: "int option"
  tg_isBot :: bool

definition toTelegramMessage :: "Update \<Rightarrow> TelegramMessage" where
  "toTelegramMessage u =
     \<lparr> tg_id = update_id u,
       tg_from = orElse (case u_message u of None \<Rightarrow> None | Some m \<Rightarrow> tm_first_name m)
                        (js ''User''),
       tg_text = orElse (case u_message u of None \<Rightarrow> None | Some m \<Rightarrow> tm_text m) [],
       tg_timestamp =
         (let ms = roundDouble
                     ((case (case u_message u of None \<Rightarrow> None | Some m \<Rightarrow> tm_date m) of
                         None \<Rightarrow> 0 | Some d \<Rightarrow> d) * 1000)
          in if \<bar>ms\<bar> \<le> 8640000000000000 then Some ms else None),
       tg_isBot = False \<rparr>"

text \<open>
  The cursor after the \<^verbatim>\<open>map\<close> over a batch: every update runs
  \<^verbatim>\<open>offset = Math.max(offset, u.update_id + 1)\<close>, in order.
\<close>

definition advanceOffset :: "int \<Rightarrow> Update list \<Rightarrow> int" where
  "advanceOffset off us = foldl (\<lambda>off u. max off (roundDouble (update_id u + 1))) off us"

text \<open>
  The state of a polling session: the variable \<^verbatim>\<open>offset\<close> of
  \<^verbatim>\<open>startPolling\<close>, the \<^verbatim>\<open>messages\<close> of the view, and the requests that have
  been sent and not yet answered, each with the offset of its URL, oldest first.
\<close>

record PollState =
  offset :: int
  tv_messages :: "TelegramMessage list"
  inFlight :: "int list"

definition startPolling :: "TelegramMessage list \<Rightarrow> PollState" where
  "startPolling msgs = \<lparr>offset = 0, tv_messages = msgs, inFlight = []\<rparr>"

text \<open>
  The interval callback is an \<^verbatim>\<open>async\<close> function. \<open>poll_start\<close> is what runs when
  the interval fires, up to \<^verbatim>\<open>await fetch(url)\<close>: the URL is built with the
  \<^verbatim>\<open>offset\<close> of that moment and the request is sent. The interval fires every
  3000 ms whether or not an earlier request has been answered.
\<close>

definition poll_start :: "PollState \<Rightarrow> PollState" where
  "poll_start p = p\<lparr>inFlight := inFlight p @ [offset p]\<rparr>"

text \<open>
  \<open>poll_resume\<close> is the rest of the callback, run when the answer arrives, on the state
  of that moment. The answer of \<^verbatim>\<open>getUpdates\<close> is \<^verbatim>\<open>data.ok\<close> with
  \<^verbatim>\<open>data.result\<close>, or an exception of \<^verbatim>\<open>fetch\<close> or \<^verbatim>\<open>res.json()\<close>, which the
  callback swallows. The second component of the result lists the arguments of the
  \<^verbatim>\<open>pushNotification\<close> calls, in order.
\<close>

type_synonym PollResponse = "(bool \<times> Update list) outcome"

definition poll_resume :: "PollResponse \<Rightarrow> PollState \<Rightarrow> PollState \<times> NotifInput list" where
  "poll_resume res p =
     (case res of
        Inl e \<Rightarrow> (p, [])
      | Inr (ok, result) \<Rightarrow>
          if ok \<and> length result > 0
          then
            let off' = advanceOffset (offset p) result;
                newMsgs = filter (\<lambda>m. tg_text m \<noteq> []) (map toTelegramMessage result)
            in if length newMsgs > 0
               then (p\<lparr>offset := off', tv_messages := tv_messages p @ newMsgs\<rparr>,
                     map (\<lambda>m. \<lparr>ni_type = NInfo, ni_title = js ''Telegram: '' @ tg_from m,
                                ni_body = take 80 (tg_text m),
                                ni_agent = None, ni_action = None\<rparr>) newMsgs)
               else (p\<lparr>offset := off'\<rparr>, [])
          else (p, []))"

text \<open>
  What happens in a polling session: the interval fires (\<open>Tick\<close>), or the answer to the
  request at position \<open>i\<close> of the requests in flight arrives (\<open>Answer i res\<close>). Answers
  may arrive in any order; an answer to a request that does not exist is no event.
\<close>

datatype PollEvent = Tick | Answer nat PollResponse

fun pollStep :: "PollEvent \<Rightarrow> PollState \<Rightarrow> PollState" where
  "pollStep Tick p = poll_start p"
| "pollStep (Answer i res) p =
     (if i < length (inFlight p)
      then fst (poll_resume res
                  (p\<lparr>inFlight := take i (inFlight p) @ drop (Suc i) (inFlight p)\<rparr>))
      else p)"

fun pollRun :: "PollState \<Rightarrow> PollEvent list \<Rightarrow> PollState" where
  "pollRun p [] = p"
| "pollRun p (e # evs) = pollRun (pollStep e p) evs"

text \<open>The updates of an answer that the callback processes.\<close>

definition batch :: "PollResponse \<Rightarrow> Update list" where
  "batch res = (case res of Inl e \<Rightarrow> [] | Inr (ok, result) \<Rightarrow> if ok then result else [])"

text \<open>
  Three conditions on a run of events from a state. \<open>apiAnswers\<close>: every answer belongs
  to a request in flight and holds only updates whose id is at least the offset that
  request was sent with, which is the contract of \<^verbatim>\<open>getUpdates?offset=n\<close>.
  \<open>oneAtATime\<close>: the interval never fires while a request is in flight. \<open>safeIds\<close>:
  every update id of every answer is a safe integer.
\<close>

fun apiAnswers :: "PollState \<Rightarrow> PollEvent list \<Rightarrow> bool" where
  "apiAnswers p [] = True"
| "apiAnswers p (Tick # evs) = apiAnswers (pollStep Tick p) evs"
| "apiAnswers p (Answer i res # evs) =
     (i < length (inFlight p) \<and>
      list_all (\<lambda>u. inFlight p ! i \<le> update_id u) (batch res) \<and>
      apiAnswers (pollStep (Answer i res) p) evs)"

fun oneAtATime :: "PollState \<Rightarrow> PollEvent list \<Rightarrow> bool" where
  "oneAtATime p [] = True"
| "oneAtATime p (Tick # evs) = (inFlight p = [] \<and> oneAtATime (pollStep Tick p) evs)"
| "oneAtATime p (Answer i res # evs) = oneAtATime (pollStep (Answer i res) p) evs"

fun safeIds :: "PollEvent list \<Rightarrow> bool" where
  "safeIds [] = True"
| "safeIds (Tick # evs) = safeIds evs"
| "safeIds (Answer i res # evs) =
     (list_all (\<lambda>u. isSafeInteger (update_id u)) (batch res) \<and> safeIds evs)"

section \<open>Toasts: \<^verbatim>\<open>NotificationSystem.tsx\<close>\<close>

text \<open>\<^verbatim>\<open>ToastContainer\<close> shows the first four unread notifications.\<close>

definition recent :: "NexusState \<Rightarrow> Notification list" where
  "recent s = take 4 (filter (\<lambda>n. \<not> n_read n) (notifications s))"

text \<open>
  A \<^verbatim>\<open>Toast\<close> starts a timer of 5000 ms when it is mounted; when it fires, the toast
  sets \<^verbatim>\<open>exiting\<close> and starts a timer of 250 ms that calls \<^verbatim>\<open>onDismiss\<close>, which
  \<^verbatim>\<open>ToastContainer\<close> binds to \<^verbatim>\<open>dismissNotification(n.id)\<close>.
  \<open>Toast_elapsed ms n s\<close> is the \<^verbatim>\<open>exiting\<close> flag and the store once the toast of
  \<open>n\<close> has been mounted for \<open>ms\<close> milliseconds on the store \<open>s\<close>, with no click and
  no other store action.
\<close>

definition TOAST_TIMEOUT :: nat where
  "TOAST_TIMEOUT = 5000"

definition EXIT_GRACE :: nat where
  "EXIT_GRACE = 250"

definition onDismiss :: "Notification \<Rightarrow> NexusState \<Rightarrow> NexusState" where
  "onDismiss n s = dismissNotification (n_id n) s"

definition Toast_elapsed :: "nat \<Rightarrow> Notification \<Rightarrow> NexusState \<Rightarrow> bool \<times> NexusState" where
  "Toast_elapsed ms n s =
     (if ms < TOAST_TIMEOUT then (False, s)
      else if ms < TOAST_TIMEOUT + EXIT_GRACE then (True, s)
      else (True, onDismiss n s))"

section \<open>Runs of notification actions\<close>

datatype NotifOp = Push NotifInput stamp | MarkAllRead | Dismiss jsstring

fun applyOp :: "NotifOp \<Rightarrow> NexusState \<Rightarrow> NexusState" where
  "applyOp (Push n st) s = pushNotification n st s"
| "applyOp MarkAllRead s = markAllRead s"
| "applyOp (Dismiss i) s = dismissNotification i s"

fun runOps :: "NotifOp list \<Rightarrow> NexusState \<Rightarrow> NexusState" where
  "runOps [] s = s"
| "runOps (x # xs) s = runOps xs (applyOp x s)"

text \<open>The number of unread entries of the list, as the notification panel counts it.\<close>

definition unreadEntries :: "NexusState \<Rightarrow> nat" where
  "unreadEntries s = length (filter (\<lambda>n. \<not> n_read n) (notifications s))"

section \<open>Example data\<close>

definition exampleNotif :: NotifInput where
  "exampleNotif = \<lparr>ni_type = NInfo, ni_title = js ''Build'', ni_body = js ''done'',
                    ni_agent = None, ni_action = None\<rparr>"

definition fiftyOnePushes :: "NotifOp list" where
  "fiftyOnePushes = map (\<lambda>i. Push exampleNotif ([i], i)) [0..<51]"

definition exampleMessage :: Message where
  "exampleMessage = \<lparr>m_id = js ''m1'', m_role = RAssistant, m_content = [], m_agent = NEXUS,
                      m_timestamp = 7, m_isStreaming = Some True\<rparr>"

definition exampleTask :: Task where
  "exampleTask = \<lparr>t_id = Some (js ''t1''), t__id = None, t_project_id = js ''p1'',
                   t_title = js ''Write tests'', t_status = js ''todo'',
                   t_priority = js ''medium'', t_description = None\<rparr>"

definition boardExample :: NexusState where
  "boardExample = initialState\<lparr>tasks := [exampleTask]\<rparr>"

definition toastExample :: NexusState where
  "toastExample = pushNotification exampleNotif (js ''n1'', 1) initialState"

definition apollo :: Project where
  "apollo = \<lparr>p__id = js ''p1'', p_name = js ''Apollo '', p_description = [],
              p_status = js ''active'', p_github_repo = []\<rparr>"

definition gemini :: Project where
  "gemini = \<lparr>p__id = js ''p2'', p_name = js ''Gemini'', p_description = [],
              p_status = js ''active'', p_github_repo = []\<rparr>"

definition deleteExample :: NexusState where
  "deleteExample = initialState\<lparr>projects := [apollo, gemini], activeProjectId := Some (js ''p1'')\<rparr>"

definition dialogOpen :: "jsstring \<Rightarrow> ProjectsViewLocal" where
  "dialogOpen typed = \<lparr>loading = False, showDeleteProject = True,
                        deleteConfirmationName = typed, dragging = None\<rparr>"

definition exampleUpdate :: "int \<Rightarrow> Update" where
  "exampleUpdate i =
     \<lparr>update_id = i,
      u_message = Some \<lparr>tm_first_name = Some (js ''Ann''), tm_text = Some (js ''hi''),
                        tm_date = Some 1700000000\<rparr>\<rparr>"

section \<open>The notification queue\<close>

lemma take_append_take: "take n (xs @ take n ys) = take n (xs @ ys)"
  by (induction xs arbitrary: n) (auto simp: take_Cons split: nat.splits)

lemma notifications_runOps_push:
  "ps \<noteq> [] \<Longrightarrow>
   notifications (runOps (map (\<lambda>(n, st). Push n st) ps) s) =
     take 50 (rev (map (\<lambda>(n, st). mkNotification n st) ps) @ notifications s)"
proof (induction ps arbitrary: s)
  case Nil
  then show ?case by simp
next
  case (Cons a ps)
  obtain n st where a: "a = (n, st)" by (cases a)
  have step: "notifications (pushNotification n st s) =
              take 50 (mkNotification n st # notifications s)"
    by (simp add: pushNotification_def)
  show ?case
  proof (cases "ps = []")
    case True
    then show ?thesis using step by (simp add: a)
  next
    case False
    have "notifications (runOps (map (\<lambda>(n, st). Push n st) (a # ps)) s) =
          notifications (runOps (map (\<lambda>(n, st). Push n st) ps) (pushNotification n st s))"
      by (simp add: a)
    also have "\<dots> = take 50 (rev (map (\<lambda>(n, st). mkNotification n st) ps) @
                   take 50 (mkNotification n st # notifications s))"
      using Cons.IH [OF False, of "pushNotification n st s"] step by (simp only:)
    also have "\<dots> = take 50 (rev (map (\<lambda>(n, st). mkNotification n st) ps) @
                   (mkNotification n st # notifications s))"
      by (rule take_append_take)
    also have "\<dots> = take 50 (rev (map (\<lambda>(n, st). mkNotification n st) (a # ps)) @
                   notifications s)"
      by (simp add: a)
    finally show ?thesis .
  qed
qed

lemma unreadCount_runOps_push:
  "unreadCount (runOps (map (\<lambda>(n, st). Push n st) ps) s) = unreadCount s + length ps"
  by (induction ps arbitrary: s) (auto simp: pushNotification_def)

text \<open>
  Claim C3. Let the list hold at most 50 notifications. After any sequence of
  \<^verbatim>\<open>pushNotification\<close> calls it holds at most 50, and it is the 50 first entries of
  the pushed notifications, newest first, followed by the old list: what is evicted is
  the oldest surplus, and the order of insertion is kept. One push puts the new entry at
  the head, with the id of its stamp and \<^verbatim>\<open>read = false\<close>, and keeps the 49 newest
  entries behind it.
\<close>

theorem pushNotification_bounded:
  assumes "length (notifications s) \<le> 50"
  shows "length (notifications (runOps (map (\<lambda>(n, st). Push n st) ps) s)) \<le> 50 \<and>
         notifications (runOps (map (\<lambda>(n, st). Push n st) ps) s) =
           take 50 (rev (map (\<lambda>(n, st). mkNotification n st) ps) @ notifications s) \<and>
         notifications (pushNotification n st s) =
           mkNotification n st # take 49 (notifications s) \<and>
         n_id (mkNotification n st) = fst st \<and> \<not> n_read (mkNotification n st)"
proof -
  have run: "notifications (runOps (map (\<lambda>(n, st). Push n st) ps) s) =
           take 50 (rev (map (\<lambda>(n, st). mkNotification n st) ps) @ notifications s)"
  proof (cases "ps = []")
    case True
    then show ?thesis using assms by simp
  next
    case False
    then show ?thesis by (rule notifications_runOps_push)
  qed
  have len: "length (notifications (runOps (map (\<lambda>(n, st). Push n st) ps) s)) \<le> 50"
    by (simp only: run length_take min.cobounded2)
  have one: "notifications (pushNotification n st s) =
           mkNotification n st # take 49 (notifications s)"
    by (simp add: pushNotification_def)
  have new: "n_id (mkNotification n st) = fst st \<and> \<not> n_read (mkNotification n st)"
    by (simp add: mkNotification_def)
  from run len one new show ?thesis by blast
qed

theorem pushNotification_bounded_witness:
  "length (notifications initialState) \<le> 50 \<and>
   notifications (runOps [Push exampleNotif ([1], 1), Push exampleNotif ([2], 2)] initialState) =
     [mkNotification exampleNotif ([2], 2), mkNotification exampleNotif ([1], 1)] \<and>
   notifications (pushNotification exampleNotif ([3], 3) initialState) =
     [mkNotification exampleNotif ([3], 3)]"
  using pushNotification_bounded
    [of initialState "[(exampleNotif, ([1], 1)), (exampleNotif, ([2], 2))]" exampleNotif "([3], 3)"]
  by (simp add: initialState_def)

lemma filter_unread_dismiss:
  "filter (\<lambda>n. \<not> n_read n \<and> n_id n \<noteq> i) (filter (\<lambda>n. n_id n \<noteq> i) xs) =
   filter (\<lambda>n. \<not> n_read n \<and> n_id n \<noteq> i) xs"
  by (induction xs) auto

lemma dismiss_twice:
  "dismissNotification i (dismissNotification i s) = dismissNotification i s"
  by (simp add: dismissNotification_def filter_unread_dismiss del: filter_filter)

lemma dismiss_recomputes:
  "unreadCount (dismissNotification i s) = unreadEntries (dismissNotification i s)"
  by (simp add: dismissNotification_def unreadEntries_def conj_commute)

lemma dismiss_absent_list:
  "i \<notin> n_id ` set (notifications s) \<Longrightarrow>
   notifications (dismissNotification i s) = notifications s"
  by (auto simp: dismissNotification_def filter_id_conv)

lemma dismiss_absent_noop:
  "i \<notin> n_id ` set (notifications s) \<Longrightarrow> unreadCount s = unreadEntries s \<Longrightarrow>
   dismissNotification i s = s"
proof -
  assume a: "i \<notin> n_id ` set (notifications s)" and u: "unreadCount s = unreadEntries s"
  have f: "filter (\<lambda>n. n_id n \<noteq> i) (notifications s) = notifications s"
    using a by (auto simp: filter_id_conv)
  have g: "filter (\<lambda>n. \<not> n_read n \<and> n_id n \<noteq> i) (notifications s) =
           filter (\<lambda>n. \<not> n_read n) (notifications s)"
    using a by (auto intro: filter_cong)
  show ?thesis
    using u by (simp add: dismissNotification_def f g unreadEntries_def)
qed

lemma fiftyOnePushes_alt:
  "fiftyOnePushes = map (\<lambda>(n, st). Push n st) (map (\<lambda>i. (exampleNotif, ([i], i))) [0..<51])"
  by (simp add: fiftyOnePushes_def)

lemma drift_count: "unreadCount (runOps fiftyOnePushes initialState) = 51"
  by (simp only: fiftyOnePushes_alt unreadCount_runOps_push)
     (simp add: initialState_def)

lemma drift_notifications:
  "notifications (runOps fiftyOnePushes initialState) =
     take 50 (rev (map (\<lambda>i. mkNotification exampleNotif ([i], i)) [0..<51]))"
proof -
  have ne: "map (\<lambda>i. (exampleNotif, ([i], i))) [0..<51::nat] \<noteq> []"
    by simp
  have "notifications (runOps fiftyOnePushes initialState) =
        take 50 (rev (map (\<lambda>(n, st). mkNotification n st)
                       (map (\<lambda>i. (exampleNotif, ([i], i))) [0..<51])) @
                 notifications initialState)"
    unfolding fiftyOnePushes_alt by (rule notifications_runOps_push [OF ne])
  then show ?thesis
    by (simp add: initialState_def comp_def)
qed

lemma drift_unread: "unreadEntries (runOps fiftyOnePushes initialState) = 50"
proof -
  have "filter (\<lambda>n. \<not> n_read n)
          (take 50 (rev (map (\<lambda>i. mkNotification exampleNotif ([i], i)) [0..<51]))) =
        take 50 (rev (map (\<lambda>i. mkNotification exampleNotif ([i], i)) [0..<51]))"
    by (rule filter_True) (auto simp: mkNotification_def dest!: in_set_takeD)
  then show ?thesis
    by (simp add: unreadEntries_def drift_notifications)
qed

text \<open>
  Claim C9. The claim is that \<^verbatim>\<open>unreadCount\<close> is the number of unread entries in
  every reachable state. After 51 pushes from the initial state the counter is 51 while
  the list, cut at 50 entries, holds 50 unread ones: \<^verbatim>\<open>pushNotification\<close> adds one to
  the counter and does not account for the unread entry that the cut evicts.
\<close>

theorem unreadCount_drift:
  "unreadCount (runOps fiftyOnePushes initialState) = 51 \<and>
   unreadEntries (runOps fiftyOnePushes initialState) = 50"
  by (simp add: drift_count drift_unread)

lemma drift_absent: "[99] \<notin> n_id ` set (notifications (runOps fiftyOnePushes initialState))"
  by (auto simp: drift_notifications mkNotification_def dest!: in_set_takeD)

text \<open>
  Claim C7. The claim is that a second dismiss of an id, and more generally the dismiss of
  an id that is not in the list, changes nothing. The second dismiss of an id changes
  nothing indeed, and every dismiss sets the counter to the number of unread entries left
  (\<open>dismiss_twice\<close>, \<open>dismiss_recomputes\<close>). But in the state after 51 pushes, where
  the counter is 51 for 50 unread entries, the dismiss of an id that is absent sets the
  counter to 50: it is not a no-op.
\<close>

theorem dismiss_absent_not_noop:
  "[99] \<notin> n_id ` set (notifications (runOps fiftyOnePushes initialState)) \<and>
   unreadCount (runOps fiftyOnePushes initialState) = 51 \<and>
   unreadCount (dismissNotification [99] (runOps fiftyOnePushes initialState)) = 50 \<and>
   dismissNotification [99] (runOps fiftyOnePushes initialState) \<noteq>
     runOps fiftyOnePushes initialState"
proof -
  let ?S = "runOps fiftyOnePushes initialState"
  have l: "notifications (dismissNotification [99] ?S) = notifications ?S"
    using drift_absent by (rule dismiss_absent_list)
  have "unreadCount (dismissNotification [99] ?S) = unreadEntries (dismissNotification [99] ?S)"
    by (rule dismiss_recomputes)
  also have "\<dots> = unreadEntries ?S"
    by (simp add: unreadEntries_def l)
  finally have c: "unreadCount (dismissNotification [99] ?S) = 50"
    by (simp add: drift_unread)
  have "unreadCount (dismissNotification [99] ?S) \<noteq> unreadCount ?S"
    by (simp add: c drift_count)
  then have "dismissNotification [99] ?S \<noteq> ?S"
    by metis
  with drift_absent drift_count c show ?thesis by blast
qed

section \<open>Messages\<close>

text \<open>
  Claim C10. On an empty message list \<^verbatim>\<open>updateLastMessage\<close> leaves the store as it
  is. On a non-empty list it changes the store only in the last message, whose content is
  set and whose \<^verbatim>\<open>isStreaming\<close> becomes false; the messages before it are the same.
  The function is total: it has no failing branch.
\<close>

theorem updateLastMessage_last:
  "(messages s = [] \<longrightarrow> updateLastMessage c s = s) \<and>
   (messages s \<noteq> [] \<longrightarrow>
      updateLastMessage c s =
        s\<lparr>messages := butlast (messages s) @
             [(last (messages s))\<lparr>m_content := c, m_isStreaming := Some False\<rparr>]\<rparr>)"
proof (cases "messages s" rule: rev_cases)
  case Nil
  then show ?thesis by (simp add: updateLastMessage_def)
next
  case (snoc ys y)
  then show ?thesis by (simp add: updateLastMessage_def Let_def nth_append)
qed

theorem updateLastMessage_last_witness:
  "updateLastMessage (js ''hi'') initialState = initialState \<and>
   messages (updateLastMessage (js ''hi'') (initialState\<lparr>messages := [exampleMessage, exampleMessage]\<rparr>)) =
     [exampleMessage, exampleMessage\<lparr>m_content := js ''hi'', m_isStreaming := Some False\<rparr>]"
  using updateLastMessage_last [of initialState "js ''hi''"]
        updateLastMessage_last [of "initialState\<lparr>messages := [exampleMessage, exampleMessage]\<rparr>" "js ''hi''"]
  by (simp add: initialState_def)

section \<open>The chat input\<close>

lemma messages_updateLastMessage_snoc:
  "messages s = ys @ [y] \<Longrightarrow>
   updateLastMessage c s = s\<lparr>messages := ys @ [y\<lparr>m_content := c, m_isStreaming := Some False\<rparr>]\<rparr>"
  by (simp add: updateLastMessage_def Let_def nth_append)

lemma submit_start_sent:
  assumes "trim (orElse overrideMsg val) \<noteq> []" and "\<not> isLoading s"
  shows "submit_start overrideMsg val st1 st2 s =
     (([], s\<lparr>messages := messages s @
               [\<lparr>m_id = fst st1, m_role = RUser, m_content = trim (orElse overrideMsg val),
                 m_agent = NEXUS, m_timestamp = snd st1, m_isStreaming = None\<rparr>,
                \<lparr>m_id = fst st2, m_role = RAssistant, m_content = [],
                 m_agent = NEXUS, m_timestamp = snd st2, m_isStreaming = Some True\<rparr>],
              isLoading := True\<rparr>),
      Some \<lparr>sp_msg = trim (orElse overrideMsg val), sp_sessionId = sessionId s\<rparr>)"
  using assms by (simp add: submit_start_def Let_def addMessage_def setLoading_def)

lemma submit_resume_total:
  "\<exists>s'. submit_resume res p st s = Inr s' \<and> \<not> isLoading s' \<and>
        length (messages s') = length (messages s)"
  by (cases res)
     (auto simp: submit_resume_def submit_try_def Let_def setLoading_def updateLastMessage_def
        setSessionId_def pushNotification_def)

lemma submit_resume_failed:
  "messages s = ys @ [y] \<Longrightarrow>
   submit_resume (Inl e) p st s =
     Inr (s\<lparr>messages := ys @ [y\<lparr>m_content := OFFLINE_NOTICE, m_isStreaming := Some False\<rparr>],
            isLoading := False\<rparr>)"
  by (simp add: submit_resume_def submit_try_def setLoading_def messages_updateLastMessage_snoc)

text \<open>
  Claim C4. Let the trimmed text be non-empty and the store not be loading, so that the
  request is sent. When \<^verbatim>\<open>sendChat\<close> throws, \<^verbatim>\<open>submit\<close> is fulfilled, not
  rejected; the input box is cleared; the store differs from the old one in two things:
  the message list has two more messages at its end, the user's message and then the
  assistant's message whose content is the offline notice and whose \<^verbatim>\<open>isStreaming\<close>
  is false, and \<^verbatim>\<open>isLoading\<close> is false. Whatever the outcome of the request,
  \<^verbatim>\<open>submit\<close> is fulfilled, \<^verbatim>\<open>isLoading\<close> is false afterwards and the list has
  grown by two.
\<close>

theorem submit_failure_offline:
  assumes "trim (orElse overrideMsg val) \<noteq> []" and "\<not> isLoading s"
  shows "submit overrideMsg val st1 st2 st3 (Inl e) s =
           Inr ([], s\<lparr>messages := messages s @
               [\<lparr>m_id = fst st1, m_role = RUser, m_content = trim (orElse overrideMsg val),
                 m_agent = NEXUS, m_timestamp = snd st1, m_isStreaming = None\<rparr>,
                \<lparr>m_id = fst st2, m_role = RAssistant, m_content = OFFLINE_NOTICE,
                 m_agent = NEXUS, m_timestamp = snd st2, m_isStreaming = Some False\<rparr>],
              isLoading := False\<rparr>) \<and>
         (\<exists>v s'. submit overrideMsg val st1 st2 st3 res s = Inr (v, s') \<and> \<not> isLoading s' \<and>
                 length (messages s') = length (messages s) + 2)"
proof -
  let ?u = "\<lparr>m_id = fst st1, m_role = RUser, m_content = trim (orElse overrideMsg val),
                 m_agent = NEXUS, m_timestamp = snd st1, m_isStreaming = None\<rparr>"
  let ?a = "\<lparr>m_id = fst st2, m_role = RAssistant, m_content = [],
                 m_agent = NEXUS, m_timestamp = snd st2, m_isStreaming = Some True\<rparr>"
  let ?s1 = "s\<lparr>messages := messages s @ [?u, ?a], isLoading := True\<rparr>"
  let ?p = "\<lparr>sp_msg = trim (orElse overrideMsg val), sp_sessionId = sessionId s\<rparr>"
  have start: "submit_start overrideMsg val st1 st2 s = (([], ?s1), Some ?p)"
    using assms by (rule submit_start_sent)
  have m: "messages ?s1 = (messages s @ [?u]) @ [?a]"
    by simp
  have "submit_resume (Inl e) ?p st3 ?s1 =
        Inr (?s1\<lparr>messages := (messages s @ [?u]) @
                     [?a\<lparr>m_content := OFFLINE_NOTICE, m_isStreaming := Some False\<rparr>],
                  isLoading := False\<rparr>)"
    using m by (rule submit_resume_failed)
  then have fail: "submit overrideMsg val st1 st2 st3 (Inl e) s =
        Inr ([], ?s1\<lparr>messages := (messages s @ [?u]) @
                     [?a\<lparr>m_content := OFFLINE_NOTICE, m_isStreaming := Some False\<rparr>],
                  isLoading := False\<rparr>)"
    by (simp add: submit_def start)
  obtain s' where r: "submit_resume res ?p st3 ?s1 = Inr s'" and l: "\<not> isLoading s'"
    and n: "length (messages s') = length (messages ?s1)"
    using submit_resume_total [of res ?p st3 ?s1] by blast
  have any: "submit overrideMsg val st1 st2 st3 res s = Inr ([], s')"
    by (simp add: submit_def start r)
  from n have n2: "length (messages s') = length (messages s) + 2"
    by simp
  from fail any l n2 show ?thesis
    by simp
qed

theorem submit_failure_offline_witness:
  "trim (orElse None (js '' hello '')) \<noteq> [] \<and> \<not> isLoading initialState \<and>
   submit None (js '' hello '') (js ''u1'', 1) (js ''u2'', 2) (js ''u3'', 3) (Inl NetworkError)
     initialState =
     Inr ([], initialState\<lparr>messages :=
               [\<lparr>m_id = js ''u1'', m_role = RUser, m_content = js ''hello'',
                 m_agent = NEXUS, m_timestamp = 1, m_isStreaming = None\<rparr>,
                \<lparr>m_id = js ''u2'', m_role = RAssistant, m_content = OFFLINE_NOTICE,
                 m_agent = NEXUS, m_timestamp = 2, m_isStreaming = Some False\<rparr>]\<rparr>)"
proof -
  have t: "trim (orElse None (js '' hello '')) = js ''hello''"
    by (simp add: trim_def orElse_def js_def isWhiteSpace_def)
  have ne: "trim (orElse None (js '' hello '')) \<noteq> []"
    unfolding t by (simp add: js_def)
  have il: "\<not> isLoading initialState"
    by (simp add: initialState_def)
  show ?thesis
    using ne il submit_failure_offline [OF ne il, of "(js ''u1'', 1)" "(js ''u2'', 2)" "(js ''u3'', 3)" NetworkError]
    by (simp add: t initialState_def)
qed

section \<open>The task board\<close>

text \<open>
  Claim C1 says that the status change shows in the local task list before the response
  of the backend, and stays when the request fails. On a board with the task \<open>t1\<close> in
  status \<open>todo\<close>, the change to \<open>done\<close> leaves the task in \<open>todo\<close> while the
  request is pending, and also after the request has failed.
\<close>

theorem handleStatusChange_optimistic_counterexample:
  "map t_status (tasks (fst (handleStatusChange_start (js ''t1'') (js ''done'') boardExample))) =
     [js ''todo''] \<and>
   map t_status (tasks (handleStatusChange (Inl NetworkError) (js ''t1'') (js ''done'') boardExample)) =
     [js ''todo''] \<and>
   js ''todo'' \<noteq> js ''done''"
  by (simp add: handleStatusChange_start_def handleStatusChange_def handleStatusChange_resume_def
        boardExample_def exampleTask_def js_def)

text \<open>
  Claim C1, as the code has it. \<^verbatim>\<open>handleStatusChange\<close> awaits the backend first.
  Until the response the store is unchanged. When the request fails, the store is
  unchanged: the exception is swallowed and the task keeps its old status. When it
  succeeds, the task list becomes the list of the render with the new status on every task
  whose \<^verbatim>\<open>id\<close> is the given one, and the other tasks as they were. A drop on a
  column runs the same operation on the dragged task.
\<close>

theorem handleStatusChange_after_response:
  "fst (handleStatusChange_start taskId newStatus s) = s \<and>
   handleStatusChange (Inl e) taskId newStatus s = s \<and>
   handleStatusChange (Inr ()) taskId newStatus s =
     s\<lparr>tasks := map (\<lambda>t. if t_id t = Some taskId then t\<lparr>t_status := newStatus\<rparr> else t)
                     (tasks s)\<rparr> \<and>
   (\<forall>t \<in> set (tasks (handleStatusChange (Inr ()) taskId newStatus s)).
      t_id t = Some taskId \<longrightarrow> t_status t = newStatus) \<and>
   (dragging l = Some taskId \<longrightarrow>
      snd (onDrop res newStatus (l, s)) = handleStatusChange res taskId newStatus s)"
  by (auto simp: handleStatusChange_start_def handleStatusChange_def
        handleStatusChange_resume_def setTasks_def onDrop_def)

theorem handleStatusChange_after_response_witness:
  "tasks (handleStatusChange (Inr ()) (js ''t1'') (js ''done'') boardExample) =
     [exampleTask\<lparr>t_status := js ''done''\<rparr>] \<and>
   handleStatusChange (Inl NetworkError) (js ''t1'') (js ''done'') boardExample = boardExample \<and>
   snd (onDrop (Inr ()) (js ''done'')
          (\<lparr>loading = False, showDeleteProject = False, deleteConfirmationName = [],
            dragging = Some (js ''t1'')\<rparr>, boardExample)) =
     handleStatusChange (Inr ()) (js ''t1'') (js ''done'') boardExample"
  using handleStatusChange_after_response
    [of "js ''t1''" "js ''done''" boardExample NetworkError
        "\<lparr>loading = False, showDeleteProject = False, deleteConfirmationName = [],
          dragging = Some (js ''t1'')\<rparr>" "Inr ()"]
  by (simp add: boardExample_def exampleTask_def)

text \<open>
  Claim C8. When no project is active (\<^verbatim>\<open>activeProjectId\<close> is null) and
  \<^verbatim>\<open>getProjects\<close> returns a list, the list becomes the projects of the store, and the
  active project is the first project of the list if there is one and stays null if the
  list is empty.
\<close>

theorem loadProjects_autoselect:
  assumes "activeProjectId s = None"
  shows "activeProjectId (snd (loadProjects (Inr data) st (l, s))) =
           (case data of [] \<Rightarrow> None | p # _ \<Rightarrow> Some (p__id p)) \<and>
         projects (snd (loadProjects (Inr data) st (l, s))) = data"
  using assms
  by (simp add: loadProjects_def setProjects_def setActiveProject_def falsy_def Let_def
        split: list.splits)

theorem loadProjects_autoselect_witness:
  "activeProjectId initialState = None \<and>
   activeProjectId (snd (loadProjects (Inr [apollo, gemini]) ([], 0) (dialogOpen [], initialState))) =
     Some (js ''p1'') \<and>
   activeProjectId (snd (loadProjects (Inr []) ([], 0) (dialogOpen [], initialState))) = None"
proof -
  have h: "activeProjectId initialState = None"
    by (simp add: initialState_def)
  show ?thesis
    using h loadProjects_autoselect [OF h, of "[apollo, gemini]" "([], 0)" "dialogOpen []"]
          loadProjects_autoselect [OF h, of "[]" "([], 0)" "dialogOpen []"]
    by (simp add: apollo_def)
qed

text \<open>
  Claim C6. If \<^verbatim>\<open>handleDeleteProject\<close> sends the delete request for a project id,
  then the active project has this id and the typed confirmation equals its name. If the
  typed text differs from the name of the active project in any way, the handler sends no
  request at all, the projects and the active project stay, the DELETE PROJECT button of
  the open dialog is disabled, and a click on it does nothing. Equality is equality of
  strings: nothing is trimmed.
\<close>

theorem delete_requires_exact_name:
  "(DeleteProject pid \<in> set (fst (handleDeleteProject dbg del st (l, s))) \<longrightarrow>
      (\<exists>p. activeProject s = Some p \<and> p__id p = pid \<and> deleteConfirmationName l = p_name p)) \<and>
   (activeProject s = Some p \<and> deleteConfirmationName l \<noteq> p_name p \<longrightarrow>
      fst (handleDeleteProject dbg del st (l, s)) = [] \<and>
      projects (snd (snd (handleDeleteProject dbg del st (l, s)))) = projects s \<and>
      activeProjectId (snd (snd (handleDeleteProject dbg del st (l, s)))) = activeProjectId s \<and>
      (showDeleteProject l \<longrightarrow> deleteButtonDisabled l s = Some True) \<and>
      clickDelete dbg del st (l, s) = ([], l, s))"
proof (intro conjI impI)
  assume "DeleteProject pid \<in> set (fst (handleDeleteProject dbg del st (l, s)))"
  then show "\<exists>p. activeProject s = Some p \<and> p__id p = pid \<and> deleteConfirmationName l = p_name p"
    by (auto simp: handleDeleteProject_def Let_def activeProject_def find_Some_iff
          split: if_splits option.splits sum.splits)
next
  assume a: "activeProject s = Some p \<and> deleteConfirmationName l \<noteq> p_name p"
  then show "fst (handleDeleteProject dbg del st (l, s)) = []"
    by (simp add: handleDeleteProject_def Let_def)
  from a show "projects (snd (snd (handleDeleteProject dbg del st (l, s)))) = projects s"
    by (simp add: handleDeleteProject_def Let_def pushNotification_def)
  from a show "activeProjectId (snd (snd (handleDeleteProject dbg del st (l, s)))) = activeProjectId s"
    by (simp add: handleDeleteProject_def Let_def pushNotification_def)
  from a show "deleteButtonDisabled l s = Some True" if "showDeleteProject l"
    using that by (simp add: deleteButtonDisabled_def)
  from a show "clickDelete dbg del st (l, s) = ([], l, s)"
    by (simp add: clickDelete_def deleteButtonDisabled_def)
qed

lemma activeProject_deleteExample: "activeProject deleteExample = Some apollo"
  by (simp add: activeProject_def deleteExample_def apollo_def gemini_def js_def)

theorem delete_requires_exact_name_witness:
  "activeProject deleteExample = Some apollo \<and> p_name apollo = js ''Apollo '' \<and>
   deleteConfirmationName (dialogOpen (js ''Apollo'')) \<noteq> p_name apollo \<and>
   showDeleteProject (dialogOpen (js ''Apollo'')) \<and>
   fst (handleDeleteProject (Inr 200) (Inr ()) ([], 0) (dialogOpen (js ''Apollo''), deleteExample)) = [] \<and>
   deleteButtonDisabled (dialogOpen (js ''Apollo'')) deleteExample = Some True \<and>
   DeleteProject (js ''p1'') \<in>
     set (fst (handleDeleteProject (Inr 200) (Inr ()) ([], 0)
                 (dialogOpen (js ''Apollo ''), deleteExample))) \<and>
   deleteConfirmationName (dialogOpen (js ''Apollo '')) = p_name apollo"
proof -
  have ne: "deleteConfirmationName (dialogOpen (js ''Apollo'')) \<noteq> p_name apollo"
    by (simp add: dialogOpen_def apollo_def js_def)
  have sh: "showDeleteProject (dialogOpen (js ''Apollo''))"
    by (simp add: dialogOpen_def)
  have call: "DeleteProject (js ''p1'') \<in>
     set (fst (handleDeleteProject (Inr 200) (Inr ()) ([], 0)
                 (dialogOpen (js ''Apollo ''), deleteExample)))"
    by (simp add: handleDeleteProject_def Let_def activeProject_deleteExample falsy_def)
       (simp add: deleteExample_def dialogOpen_def apollo_def js_def)
  show ?thesis
    using activeProject_deleteExample ne sh call
      delete_requires_exact_name [of "js ''p1''" "Inr 200" "Inr ()" "([], 0)"
         "dialogOpen (js ''Apollo '')" deleteExample apollo]
      delete_requires_exact_name [of "js ''p1''" "Inr 200" "Inr ()" "([], 0)"
         "dialogOpen (js ''Apollo'')" deleteExample apollo]
    by (simp add: apollo_def)
qed

section \<open>Toasts\<close>

text \<open>
  Claim C2 says that a toast that dismisses itself leaves the notification queue
  unchanged. With one unread notification in the queue, its toast is shown, and 5250 ms
  after it was mounted the queue is empty.
\<close>

theorem toast_keeps_queue_counterexample:
  "mkNotification exampleNotif (js ''n1'', 1) \<in> set (recent toastExample) \<and>
   notifications toastExample = [mkNotification exampleNotif (js ''n1'', 1)] \<and>
   notifications (snd (Toast_elapsed 5250 (mkNotification exampleNotif (js ''n1'', 1)) toastExample)) = []"
  by (simp add: recent_def toastExample_def pushNotification_def mkNotification_def
        Toast_elapsed_def TOAST_TIMEOUT_def EXIT_GRACE_def onDismiss_def dismissNotification_def
        initialState_def)

lemma recent_subset: "n \<in> set (recent s) \<Longrightarrow> n \<in> set (notifications s)"
  by (auto simp: recent_def dest: in_set_takeD)

text \<open>
  Claim C2, as the code has it. For a notification shown as a toast: before 5250 ms (the
  timeout of 5000 ms and the 250 ms of the exit animation) the store is unchanged; from
  5250 ms on the store is the result of \<^verbatim>\<open>dismissNotification\<close> on the id of
  the notification. The queue is then the old queue without the entries of that id, the
  notification is no longer in it, and the queue is shorter.
\<close>

theorem toast_self_dismiss_removes:
  assumes "n \<in> set (recent s)"
  shows "(ms < 5250 \<longrightarrow> snd (Toast_elapsed ms n s) = s) \<and>
         (5250 \<le> ms \<longrightarrow>
            snd (Toast_elapsed ms n s) = dismissNotification (n_id n) s \<and>
            notifications (snd (Toast_elapsed ms n s)) =
              filter (\<lambda>m. n_id m \<noteq> n_id n) (notifications s) \<and>
            n \<notin> set (notifications (snd (Toast_elapsed ms n s))) \<and>
            length (notifications (snd (Toast_elapsed ms n s))) < length (notifications s))"
proof -
  have mem: "n \<in> set (notifications s)"
    using assms by (rule recent_subset)
  have less: "length (filter (\<lambda>m. n_id m \<noteq> n_id n) (notifications s)) < length (notifications s)"
    using mem by (intro length_filter_less [of n]) auto
  show ?thesis
    using less
    by (auto simp: Toast_elapsed_def TOAST_TIMEOUT_def EXIT_GRACE_def onDismiss_def
          dismissNotification_def)
qed

theorem toast_self_dismiss_removes_witness:
  "mkNotification exampleNotif (js ''n1'', 1) \<in> set (recent toastExample) \<and>
   snd (Toast_elapsed 5249 (mkNotification exampleNotif (js ''n1'', 1)) toastExample) = toastExample \<and>
   snd (Toast_elapsed 5250 (mkNotification exampleNotif (js ''n1'', 1)) toastExample) =
     dismissNotification (js ''n1'') toastExample"
proof -
  have h: "mkNotification exampleNotif (js ''n1'', 1) \<in> set (recent toastExample)"
    by (simp add: recent_def toastExample_def pushNotification_def mkNotification_def)
  show ?thesis
    using h toast_self_dismiss_removes [OF h, of 5249] toast_self_dismiss_removes [OF h, of 5250]
    by (simp add: mkNotification_def)
qed

section \<open>Bot polling\<close>

lemma roundDouble_exact: "\<bar>x\<bar> \<le> 2 ^ 53 \<Longrightarrow> roundDouble x = x"
  by (simp only: roundDouble_def if_True)

lemma roundDouble_safe:
  assumes "isSafeInteger n"
  shows "roundDouble (n + 1) = n + 1"
proof -
  from assms have "\<bar>n\<bar> < (2::int) ^ 53"
    by (simp only: isSafeInteger_def)
  then have "\<bar>n + 1\<bar> \<le> (2::int) ^ 53"
    by linarith
  then show ?thesis
    by (simp only: roundDouble_def if_True)
qed

lemma advanceOffset_rounds: "advanceOffset 0 [exampleUpdate (2 ^ 53)] = 2 ^ 53"
proof -
  have "roundDouble (2 ^ 53 + 1) = 2 ^ 53"
    by (simp add: roundDouble_def Let_def)
  then show ?thesis
    by (simp add: advanceOffset_def exampleUpdate_def)
qed

lemma advanceOffset_Cons:
  "advanceOffset off (u # us) = advanceOffset (max off (roundDouble (update_id u + 1))) us"
  by (simp add: advanceOffset_def)

lemma advanceOffset_ge: "off \<le> advanceOffset off us"
proof (induction us arbitrary: off)
  case Nil
  show ?case by (simp add: advanceOffset_def)
next
  case (Cons u us)
  have "off \<le> max off (roundDouble (update_id u + 1))" by simp
  also have "\<dots> \<le> advanceOffset (max off (roundDouble (update_id u + 1))) us" by (rule Cons.IH)
  finally show ?case by (simp add: advanceOffset_Cons)
qed

lemma advanceOffset_above:
  "u \<in> set us \<Longrightarrow> isSafeInteger (update_id u) \<Longrightarrow> update_id u < advanceOffset off us"
proof (induction us arbitrary: off)
  case Nil
  then show ?case by simp
next
  case (Cons v us)
  show ?case
  proof (cases "u = v")
    case True
    have "update_id u < max off (update_id u + 1)" by simp
    also have "\<dots> = max off (roundDouble (update_id u + 1))"
      using Cons.prems(2) by (simp add: roundDouble_safe)
    also have "\<dots> \<le> advanceOffset (max off (roundDouble (update_id u + 1))) us"
      by (rule advanceOffset_ge)
    finally show ?thesis by (simp add: advanceOffset_Cons True)
  next
    case False
    with Cons.prems have "u \<in> set us" by simp
    then show ?thesis using Cons.prems(2) by (simp add: advanceOffset_Cons Cons.IH)
  qed
qed

lemma advanceOffset_Max:
  "list_all (\<lambda>u. isSafeInteger (update_id u)) us \<Longrightarrow>
   advanceOffset off us = Max (insert off ((\<lambda>u. update_id u + 1) ` set us))"
proof (induction us arbitrary: off)
  case Nil
  show ?case by (simp add: advanceOffset_def)
next
  case (Cons u us)
  from Cons.prems have su: "isSafeInteger (update_id u)"
    and rest: "list_all (\<lambda>u. isSafeInteger (update_id u)) us"
    by simp_all
  have "advanceOffset off (u # us) =
        Max (insert (max off (update_id u + 1)) ((\<lambda>u. update_id u + 1) ` set us))"
    by (simp add: advanceOffset_Cons Cons.IH [OF rest] roundDouble_safe [OF su])
  also have "\<dots> = Max (insert off (insert (update_id u + 1) ((\<lambda>u. update_id u + 1) ` set us)))"
    by (cases "us = []") (simp_all add: max.assoc)
  finally show ?case by simp
qed

lemma Max_succ:
  assumes "us \<noteq> []"
  shows "Max ((\<lambda>u. update_id u + 1) ` set us) = Max (update_id ` set us) + 1"
proof -
  have "(\<lambda>u. update_id u + 1) ` set us = (\<lambda>x. x + 1) ` (update_id ` set us)"
    by (simp add: image_image)
  moreover have "Max ((\<lambda>x. x + 1) ` (update_id ` set us)) = Max (update_id ` set us) + 1"
    using assms by (intro mono_Max_commute [symmetric]) (auto simp: mono_def)
  ultimately show ?thesis by simp
qed

lemma advanceOffset_max:
  assumes "us \<noteq> []" and "list_all (\<lambda>u. isSafeInteger (update_id u)) us"
  shows "advanceOffset off us = max off (Max (update_id ` set us) + 1)"
proof -
  let ?A = "(\<lambda>u. update_id u + 1) ` set us"
  have fin: "finite ?A" and ne: "?A \<noteq> {}"
    using assms(1) by auto
  have "advanceOffset off us = Max (insert off ?A)"
    using assms(2) by (rule advanceOffset_Max)
  also have "\<dots> = max off (Max ?A)"
    using fin ne by (rule Max_insert)
  finally show ?thesis
    by (simp add: Max_succ [OF assms(1)])
qed

lemma advanceOffset_served:
  assumes "us \<noteq> []" and "list_all (\<lambda>u. isSafeInteger (update_id u)) us"
    and "list_all (\<lambda>u. off \<le> update_id u) us"
  shows "advanceOffset off us = Max (update_id ` set us) + 1"
proof -
  obtain u where u: "u \<in> set us"
    using assms(1) by (cases us) auto
  with assms(3) have "off \<le> update_id u"
    by (simp add: list_all_iff)
  moreover have "update_id u \<le> Max (update_id ` set us)"
    using u by (intro Max_ge) auto
  ultimately have "off \<le> Max (update_id ` set us) + 1"
    by simp
  then show ?thesis
    by (simp add: advanceOffset_max [OF assms(1,2)])
qed

lemma offset_poll_resume:
  "offset (fst (poll_resume r p)) = advanceOffset (offset p) (batch r)"
  by (auto simp: poll_resume_def batch_def Let_def advanceOffset_def split: sum.splits)

lemma messages_poll_resume:
  "tv_messages (fst (poll_resume r p)) =
     tv_messages p @ filter (\<lambda>m. tg_text m \<noteq> []) (map toTelegramMessage (batch r))"
  by (auto simp: poll_resume_def batch_def Let_def split: sum.splits)

lemma inFlight_poll_resume: "inFlight (fst (poll_resume r p)) = inFlight p"
  by (auto simp: poll_resume_def Let_def split: sum.splits)

lemma pollRun_append: "pollRun p (evs @ evs') = pollRun (pollRun p evs) evs'"
  by (induction evs arbitrary: p) auto

lemma offset_pollStep_ge: "offset p \<le> offset (pollStep e p)"
  by (cases e) (simp_all add: poll_start_def offset_poll_resume advanceOffset_ge)

lemma offset_pollRun_ge: "offset p \<le> offset (pollRun p evs)"
proof (induction evs arbitrary: p)
  case Nil
  show ?case by simp
next
  case (Cons e evs)
  have "offset p \<le> offset (pollStep e p)"
    by (rule offset_pollStep_ge)
  also have "\<dots> \<le> offset (pollRun (pollStep e p) evs)"
    by (rule Cons.IH)
  finally show ?case by simp
qed

lemma apiAnswers_append:
  "apiAnswers p (evs @ evs') \<longleftrightarrow> apiAnswers p evs \<and> apiAnswers (pollRun p evs) evs'"
  by (induction p evs rule: apiAnswers.induct) auto

lemma oneAtATime_append:
  "oneAtATime p (evs @ evs') \<longleftrightarrow> oneAtATime p evs \<and> oneAtATime (pollRun p evs) evs'"
  by (induction p evs rule: oneAtATime.induct) auto

lemma safeIds_append: "safeIds (evs @ evs') \<longleftrightarrow> safeIds evs \<and> safeIds evs'"
  by (induction evs rule: safeIds.induct) auto

lemma safeIds_mem:
  "safeIds evs \<Longrightarrow> Answer j r0 \<in> set evs \<Longrightarrow> u \<in> set (batch r0) \<Longrightarrow>
   isSafeInteger (update_id u)"
  by (induction evs rule: safeIds.induct) (auto simp: list_all_iff)

lemma delivered_below_offset:
  "apiAnswers p evs \<Longrightarrow> Answer j r0 \<in> set evs \<Longrightarrow> u \<in> set (batch r0) \<Longrightarrow>
   isSafeInteger (update_id u) \<Longrightarrow> update_id u < offset (pollRun p evs)"
proof (induction p evs rule: apiAnswers.induct)
  case (1 p)
  then show ?case by simp
next
  case (2 p evs)
  then show ?case by simp
next
  case (3 p i res evs)
  show ?case
  proof (cases "Answer j r0 = Answer i res")
    case True
    then have r: "r0 = res" by simp
    from "3.prems"(1) have i: "i < length (inFlight p)" by simp
    have "update_id u < advanceOffset (offset p) (batch res)"
      using "3.prems"(3,4) r by (simp add: advanceOffset_above)
    also have "\<dots> = offset (pollStep (Answer i res) p)"
      using i by (simp add: offset_poll_resume)
    also have "\<dots> \<le> offset (pollRun (pollStep (Answer i res) p) evs)"
      by (rule offset_pollRun_ge)
    finally show ?thesis by simp
  next
    case False
    with "3.prems"(2) have "Answer j r0 \<in> set evs" by auto
    moreover from "3.prems"(1) have "apiAnswers (pollStep (Answer i res) p) evs"
      by (simp del: pollStep.simps)
    ultimately have "update_id u < offset (pollRun (pollStep (Answer i res) p) evs)"
      using "3.IH" "3.prems"(3,4) by blast
    then show ?thesis by (simp only: pollRun.simps)
  qed
qed

lemma oneAtATime_inFlight:
  "oneAtATime p evs \<Longrightarrow> apiAnswers p evs \<Longrightarrow>
   inFlight p = [] \<or> inFlight p = [offset p] \<Longrightarrow>
   inFlight (pollRun p evs) = [] \<or> inFlight (pollRun p evs) = [offset (pollRun p evs)]"
proof (induction p evs rule: oneAtATime.induct)
  case (1 p)
  then show ?case by simp
next
  case (2 p evs)
  from "2.prems"(1) have e: "inFlight p = []" by simp
  have "inFlight (pollStep Tick p) = [offset (pollStep Tick p)]"
    by (simp add: poll_start_def e)
  moreover from "2.prems"(1,2) have "oneAtATime (pollStep Tick p) evs"
    and "apiAnswers (pollStep Tick p) evs"
    by (simp_all del: pollStep.simps)
  ultimately have "inFlight (pollRun (pollStep Tick p) evs) = [] \<or>
      inFlight (pollRun (pollStep Tick p) evs) = [offset (pollRun (pollStep Tick p) evs)]"
    using "2.IH" by blast
  then show ?case by (simp only: pollRun.simps)
next
  case (3 p i res evs)
  from "3.prems"(2) have i: "i < length (inFlight p)" by simp
  with "3.prems"(3) have "inFlight p = [offset p]" and "i = 0" by auto
  then have "inFlight (pollStep (Answer i res) p) = []"
    by (simp add: inFlight_poll_resume)
  moreover from "3.prems"(1,2) have "oneAtATime (pollStep (Answer i res) p) evs"
    and "apiAnswers (pollStep (Answer i res) p) evs"
    by (simp_all del: pollStep.simps)
  ultimately have "inFlight (pollRun (pollStep (Answer i res) p) evs) = [] \<or>
      inFlight (pollRun (pollStep (Answer i res) p) evs) =
        [offset (pollRun (pollStep (Answer i res) p) evs)]"
    using "3.IH" by blast
  then show ?case by (simp only: pollRun.simps)
qed

text \<open>
  Claim C5 says that after every batch the cursor is the largest update id of the batch
  plus one, and that no later poll appends a message of an earlier batch again. The
  interval fires twice before any answer arrives, so that two requests are sent with the
  offset 0. The first is answered with the ids 5, 7, 6 and the second with the id 5: both
  answers hold only ids at or above the offset of their request. After the second answer
  the cursor is 8, not 6, and the message 5 is in the list twice.
\<close>

theorem poll_overlap_counterexample:
  "apiAnswers (startPolling [])
     [Tick, Tick, Answer 0 (Inr (True, [exampleUpdate 5, exampleUpdate 7, exampleUpdate 6])),
      Answer 0 (Inr (True, [exampleUpdate 5]))] \<and>
   offset (pollRun (startPolling [])
     [Tick, Tick, Answer 0 (Inr (True, [exampleUpdate 5, exampleUpdate 7, exampleUpdate 6])),
      Answer 0 (Inr (True, [exampleUpdate 5]))]) = 8 \<and>
   Max (update_id ` set [exampleUpdate 5]) + 1 = 6 \<and>
   map tg_id (tv_messages (pollRun (startPolling [])
     [Tick, Tick, Answer 0 (Inr (True, [exampleUpdate 5, exampleUpdate 7, exampleUpdate 6])),
      Answer 0 (Inr (True, [exampleUpdate 5]))])) = [5, 7, 6, 5]"
  by (simp add: startPolling_def poll_start_def poll_resume_def advanceOffset_def
        exampleUpdate_def Let_def toTelegramMessage_def orElse_def js_def batch_def
        roundDouble_exact)

text \<open>
  Claim C5, as the code has it, for one polling session, which starts with the cursor 0.
  The cursor never decreases, whatever happens next. When the answer to a request in
  flight is processed, the messages of its batch that have a text are appended to the
  list, and if the batch is not empty and its ids are safe integers, the cursor becomes
  the larger of the cursor of that moment and the largest update id of the batch plus one.
  If moreover the interval never fires while a request is in flight, every answer holds
  only ids at or above the offset its request was sent with, and all ids are safe
  integers, then the cursor after a batch is the largest id of the batch plus one, and no
  appended message has the id of an update of an earlier answer.
\<close>

theorem poll_cursor_advances:
  "offset (pollRun (startPolling msgs) evs) \<le> offset (pollRun (startPolling msgs) (evs @ [e])) \<and>
   (i < length (inFlight (pollRun (startPolling msgs) evs)) \<longrightarrow>
      tv_messages (pollRun (startPolling msgs) (evs @ [Answer i r])) =
        tv_messages (pollRun (startPolling msgs) evs) @
        filter (\<lambda>m. tg_text m \<noteq> []) (map toTelegramMessage (batch r)) \<and>
      (batch r \<noteq> [] \<and> list_all (\<lambda>u. isSafeInteger (update_id u)) (batch r) \<longrightarrow>
         offset (pollRun (startPolling msgs) (evs @ [Answer i r])) =
           max (offset (pollRun (startPolling msgs) evs))
               (Max (update_id ` set (batch r)) + 1))) \<and>
   (oneAtATime (startPolling msgs) (evs @ [Answer i r]) \<and>
    apiAnswers (startPolling msgs) (evs @ [Answer i r]) \<and>
    safeIds (evs @ [Answer i r]) \<longrightarrow>
      (batch r \<noteq> [] \<longrightarrow>
         offset (pollRun (startPolling msgs) (evs @ [Answer i r])) =
           Max (update_id ` set (batch r)) + 1) \<and>
      (\<forall>m \<in> set (filter (\<lambda>m. tg_text m \<noteq> []) (map toTelegramMessage (batch r))).
         \<forall>j r0. Answer j r0 \<in> set evs \<longrightarrow>
           (\<forall>u \<in> set (batch r0). tg_id m \<noteq> update_id u)))"
proof -
  let ?p = "startPolling msgs"
  let ?q = "pollRun ?p evs"
  let ?new = "filter (\<lambda>m. tg_text m \<noteq> []) (map toTelegramMessage (batch r))"
  have a: "offset ?q \<le> offset (pollRun ?p (evs @ [e]))"
    by (simp add: pollRun_append offset_pollStep_ge)
  have b1: "tv_messages (pollRun ?p (evs @ [Answer i r])) = tv_messages ?q @ ?new"
    if "i < length (inFlight ?q)"
    using that by (simp add: pollRun_append messages_poll_resume)
  have b2: "offset (pollRun ?p (evs @ [Answer i r])) =
            max (offset ?q) (Max (update_id ` set (batch r)) + 1)"
    if "i < length (inFlight ?q)" and "batch r \<noteq> []"
      and "list_all (\<lambda>u. isSafeInteger (update_id u)) (batch r)"
    using that by (simp add: pollRun_append offset_poll_resume advanceOffset_max)
  have c: "(batch r \<noteq> [] \<longrightarrow>
             offset (pollRun ?p (evs @ [Answer i r])) = Max (update_id ` set (batch r)) + 1) \<and>
           (\<forall>m \<in> set ?new. \<forall>j r0. Answer j r0 \<in> set evs \<longrightarrow>
              (\<forall>u \<in> set (batch r0). tg_id m \<noteq> update_id u))"
    if one: "oneAtATime ?p (evs @ [Answer i r])" and api: "apiAnswers ?p (evs @ [Answer i r])"
      and safe: "safeIds (evs @ [Answer i r])"
  proof -
    from one have one': "oneAtATime ?p evs"
      by (simp add: oneAtATime_append)
    from api have api': "apiAnswers ?p evs" and i: "i < length (inFlight ?q)"
      and served: "list_all (\<lambda>u. inFlight ?q ! i \<le> update_id u) (batch r)"
      by (simp_all add: apiAnswers_append)
    from safe have safe': "safeIds evs"
      and safe_r: "list_all (\<lambda>u. isSafeInteger (update_id u)) (batch r)"
      by (simp_all add: safeIds_append)
    have "inFlight ?p = [] \<or> inFlight ?p = [offset ?p]"
      by (simp add: startPolling_def)
    with one' api' have "inFlight ?q = [] \<or> inFlight ?q = [offset ?q]"
      by (rule oneAtATime_inFlight)
    with i have "inFlight ?q ! i = offset ?q"
      by auto
    with served have served': "list_all (\<lambda>u. offset ?q \<le> update_id u) (batch r)"
      by simp
    have c1: "offset (pollRun ?p (evs @ [Answer i r])) = Max (update_id ` set (batch r)) + 1"
      if "batch r \<noteq> []"
      using that i safe_r served'
      by (simp add: pollRun_append offset_poll_resume advanceOffset_served)
    have c2: "tg_id m \<noteq> update_id u"
      if m: "m \<in> set ?new" and r0: "Answer j r0 \<in> set evs" and u: "u \<in> set (batch r0)"
      for m j r0 u
    proof -
      from m obtain v where v: "v \<in> set (batch r)" and mv: "m = toTelegramMessage v"
        by auto
      from served' v have "offset ?q \<le> update_id v"
        by (simp add: list_all_iff)
      moreover have "isSafeInteger (update_id u)"
        using safe' r0 u by (rule safeIds_mem)
      with api' r0 u have "update_id u < offset ?q"
        by (rule delivered_below_offset)
      ultimately show ?thesis
        by (simp add: mv toTelegramMessage_def)
    qed
    from c1 c2 show ?thesis by blast
  qed
  from a b1 b2 c show ?thesis by blast
qed

theorem poll_cursor_advances_witness:
  "0 < length (inFlight (pollRun (startPolling []) [Tick])) \<and>
   oneAtATime (startPolling [])
     ([Tick] @ [Answer 0 (Inr (True, [exampleUpdate 5, exampleUpdate 7, exampleUpdate 6]))]) \<and>
   apiAnswers (startPolling [])
     ([Tick] @ [Answer 0 (Inr (True, [exampleUpdate 5, exampleUpdate 7, exampleUpdate 6]))]) \<and>
   safeIds ([Tick] @ [Answer 0 (Inr (True, [exampleUpdate 5, exampleUpdate 7, exampleUpdate 6]))]) \<and>
   offset (pollRun (startPolling [])
     [Tick, Answer 0 (Inr (True, [exampleUpdate 5, exampleUpdate 7, exampleUpdate 6]))]) = 8 \<and>
   oneAtATime (startPolling [])
     ([Tick, Answer 0 (Inr (True, [exampleUpdate 5, exampleUpdate 7, exampleUpdate 6])), Tick] @
      [Answer 0 (Inr (True, [exampleUpdate 8]))]) \<and>
   apiAnswers (startPolling [])
     ([Tick, Answer 0 (Inr (True, [exampleUpdate 5, exampleUpdate 7, exampleUpdate 6])), Tick] @
      [Answer 0 (Inr (True, [exampleUpdate 8]))]) \<and>
   safeIds
     ([Tick, Answer 0 (Inr (True, [exampleUpdate 5, exampleUpdate 7, exampleUpdate 6])), Tick] @
      [Answer 0 (Inr (True, [exampleUpdate 8]))]) \<and>
   offset (pollRun (startPolling [])
     [Tick, Answer 0 (Inr (True, [exampleUpdate 5, exampleUpdate 7, exampleUpdate 6])), Tick,
      Answer 0 (Inr (True, [exampleUpdate 8]))]) = 9 \<and>
   map tg_id (tv_messages (pollRun (startPolling [])
     [Tick, Answer 0 (Inr (True, [exampleUpdate 5, exampleUpdate 7, exampleUpdate 6])), Tick,
      Answer 0 (Inr (True, [exampleUpdate 8]))])) = [5, 7, 6, 8]"
proof -
  let ?r1 = "Inr (True, [exampleUpdate 5, exampleUpdate 7, exampleUpdate 6]) :: PollResponse"
  let ?r2 = "Inr (True, [exampleUpdate 8]) :: PollResponse"
  let ?p = "startPolling []"
  note ev = startPolling_def poll_start_def poll_resume_def advanceOffset_def
    exampleUpdate_def Let_def toTelegramMessage_def orElse_def js_def batch_def
    roundDouble_exact isSafeInteger_def
  have i1: "0 < length (inFlight (pollRun ?p [Tick]))"
    by (simp add: ev)
  have h1: "oneAtATime ?p ([Tick] @ [Answer 0 ?r1])" "apiAnswers ?p ([Tick] @ [Answer 0 ?r1])"
    "safeIds ([Tick] @ [Answer 0 ?r1])"
    by (simp_all add: ev)
  have h2: "oneAtATime ?p ([Tick, Answer 0 ?r1, Tick] @ [Answer 0 ?r2])"
    "apiAnswers ?p ([Tick, Answer 0 ?r1, Tick] @ [Answer 0 ?r2])"
    "safeIds ([Tick, Answer 0 ?r1, Tick] @ [Answer 0 ?r2])"
    by (simp_all add: ev)
  have b1: "batch ?r1 \<noteq> []" and b2: "batch ?r2 \<noteq> []"
    by (simp_all add: batch_def)
  have o1: "offset (pollRun ?p ([Tick] @ [Answer 0 ?r1])) = Max (update_id ` set (batch ?r1)) + 1"
    using h1 b1 poll_cursor_advances [of "[]" "[Tick]" Tick 0 ?r1] by blast
  have o2: "offset (pollRun ?p ([Tick, Answer 0 ?r1, Tick] @ [Answer 0 ?r2])) =
            Max (update_id ` set (batch ?r2)) + 1"
    using h2 b2 poll_cursor_advances [of "[]" "[Tick, Answer 0 ?r1, Tick]" Tick 0 ?r2] by blast
  have e1: "offset (pollRun ?p [Tick, Answer 0 ?r1]) = 8"
    using o1 by (simp add: batch_def exampleUpdate_def)
  have e2: "offset (pollRun ?p [Tick, Answer 0 ?r1, Tick, Answer 0 ?r2]) = 9"
    using o2 by (simp add: batch_def exampleUpdate_def)
  have m: "map tg_id (tv_messages (pollRun ?p [Tick, Answer 0 ?r1, Tick, Answer 0 ?r2])) =
           [5, 7, 6, 8]"
    by (simp add: ev)
  from i1 h1 h2 e1 e2 m show ?thesis
    by simp
qed

end
